theory Spec2Isabelle
  imports Main
begin

section \<open>Python strings\<close>

text \<open>
  The program is \<^verbatim>\<open>generate_data.py\<close>. Its strings are Python \<^verbatim>\<open>str\<close> values; they are
  modelled as lists of characters. The model follows Python on the ASCII range, where
  every keyword, quote character and separator of the program lives: a character
  outside that range is taken as a caseless character that is not white space.
\<close>

definition is_space :: "char \<Rightarrow> bool" where
  \<comment> \<open>\<^verbatim>\<open>str.isspace\<close> on one ASCII character; also what \<^verbatim>\<open>\s\<close> matches.\<close>
  "is_space c = (c \<in> set [CHR 0x09, CHR 0x0A, CHR 0x0B, CHR 0x0C, CHR 0x0D,
                            CHR 0x1C, CHR 0x1D, CHR 0x1E, CHR 0x1F, CHR 0x20])"

definition upper_letters :: string where
  "upper_letters = ''ABCDEFGHIJKLMNOPQRSTUVWXYZ''"

definition lower_letters :: string where
  "lower_letters = ''abcdefghijklmnopqrstuvwxyz''"

definition lower_char :: "char \<Rightarrow> char" where
  "lower_char c = (case map_of (zip upper_letters lower_letters) c of
                     None \<Rightarrow> c | Some d \<Rightarrow> d)"

definition upper_char :: "char \<Rightarrow> char" where
  "upper_char c = (case map_of (zip lower_letters upper_letters) c of
                     None \<Rightarrow> c | Some d \<Rightarrow> d)"

definition lower :: "string \<Rightarrow> string" where
  \<comment> \<open>\<^verbatim>\<open>s.lower()\<close>\<close>
  "lower s = map lower_char s"

definition upper :: "string \<Rightarrow> string" where
  \<comment> \<open>\<^verbatim>\<open>s.upper()\<close>\<close>
  "upper s = map upper_char s"

fun startswith :: "string \<Rightarrow> string \<Rightarrow> bool" where
  \<comment> \<open>\<^verbatim>\<open>s.startswith(p)\<close>\<close>
  "startswith s [] = True"
| "startswith [] (p # ps) = False"
| "startswith (c # cs) (p # ps) = (c = p \<and> startswith cs ps)"

fun contains :: "string \<Rightarrow> string \<Rightarrow> bool" where
  \<comment> \<open>\<^verbatim>\<open>sub in s\<close>, written \<open>contains sub s\<close>\<close>
  "contains sub [] = (sub = [])"
| "contains sub (c # cs) = (startswith (c # cs) sub \<or> contains sub cs)"

definition strip_chars :: "(char \<Rightarrow> bool) \<Rightarrow> string \<Rightarrow> string" where
  \<comment> \<open>\<^verbatim>\<open>s.strip(chars)\<close>: the characters of the set are removed at both ends.\<close>
  "strip_chars p s = rev (dropWhile p (rev (dropWhile p s)))"

definition strip :: "string \<Rightarrow> string" where
  \<comment> \<open>\<^verbatim>\<open>s.strip()\<close>\<close>
  "strip s = strip_chars is_space s"

fun split_words :: "string \<Rightarrow> string \<Rightarrow> string list" where
  \<comment> \<open>\<^verbatim>\<open>s.split()\<close> with the word read so far as first argument.\<close>
  "split_words w [] = (if w = [] then [] else [w])"
| "split_words w (c # cs) =
     (if is_space c then (if w = [] then split_words [] cs else w # split_words [] cs)
      else split_words (w @ [c]) cs)"

definition split :: "string \<Rightarrow> string list" where
  \<comment> \<open>\<^verbatim>\<open>s.split()\<close>: the maximal runs of characters that are not white space.\<close>
  "split s = split_words [] s"

fun digits :: "nat \<Rightarrow> string" where
  "digits n = (if n < 10 then [''0123456789'' ! n]
               else digits (n div 10) @ [''0123456789'' ! (n mod 10)])"

definition str_int :: "int \<Rightarrow> string" where
  \<comment> \<open>\<^verbatim>\<open>str(i)\<close> for an integer\<close>
  "str_int i = (if i < 0 then CHR ''-'' # digits (nat (- i)) else digits (nat i))"


section \<open>The literal formatter\<close>

text \<open>
  A row value is \<^verbatim>\<open>None\<close>, a \<^verbatim>\<open>bool\<close>, an \<^verbatim>\<open>int\<close>, a \<^verbatim>\<open>float\<close>, a \<^verbatim>\<open>str\<close> or
  any other object (the decimal provider returns a \<^verbatim>\<open>Decimal\<close>), kept with the text
  \<^verbatim>\<open>str\<close> gives for it. The text of a float is a parameter of the model: the type of
  floats \<open>'f\<close> and \<open>str_float\<close>.
\<close>

datatype 'f py_value =
    PyNone
  | PyBool bool
  | PyInt int
  | PyFloat 'f
  | PyStr string
  | PyObject string

fun is_None :: "'f py_value \<Rightarrow> bool" where
  "is_None PyNone = True"
| "is_None _ = False"

fun isinstance_bool :: "'f py_value \<Rightarrow> bool" where
  "isinstance_bool (PyBool b) = True"
| "isinstance_bool _ = False"

fun isinstance_int_float :: "'f py_value \<Rightarrow> bool" where
  \<comment> \<open>\<^verbatim>\<open>isinstance(val, (int, float))\<close>: \<^verbatim>\<open>bool\<close> is a subclass of \<^verbatim>\<open>int\<close>.\<close>
  "isinstance_int_float (PyBool b) = True"
| "isinstance_int_float (PyInt i) = True"
| "isinstance_int_float (PyFloat x) = True"
| "isinstance_int_float _ = False"

fun truthy :: "'f py_value \<Rightarrow> bool" where
  \<comment> \<open>the truth value, used on booleans only\<close>
  "truthy (PyBool b) = b"
| "truthy _ = False"

fun py_str :: "('f \<Rightarrow> string) \<Rightarrow> 'f py_value \<Rightarrow> string" where
  \<comment> \<open>\<^verbatim>\<open>str(val)\<close>\<close>
  "py_str str_float PyNone = ''None''"
| "py_str str_float (PyBool b) = (if b then ''True'' else ''False'')"
| "py_str str_float (PyInt i) = str_int i"
| "py_str str_float (PyFloat x) = str_float x"
| "py_str str_float (PyStr s) = s"
| "py_str str_float (PyObject s) = s"

fun replace_quote :: "string \<Rightarrow> string" where
  \<comment> \<open>\<^verbatim>\<open>s.replace("'", "''")\<close>\<close>
  "replace_quote [] = []"
| "replace_quote (c # cs) =
     (if c = CHR 0x27 then CHR 0x27 # CHR 0x27 # replace_quote cs else c # replace_quote cs)"

definition format_sql_value :: "('f \<Rightarrow> string) \<Rightarrow> 'f py_value \<Rightarrow> string \<Rightarrow> string" where
  "format_sql_value str_float val engine =
     (if is_None val then ''NULL''
      else if isinstance_bool val then
        (if engine = ''mssql'' then (if truthy val then ''1'' else ''0'')
         else (if truthy val then ''TRUE'' else ''FALSE''))
      else if isinstance_int_float val then py_str str_float val
      else CHR 0x27 # replace_quote (py_str str_float val) @ [CHR 0x27])"


section \<open>The column classifier\<close>

text \<open>
  \<^verbatim>\<open>map_column_to_mimesis\<close> returns a function that calls a provider of the data
  library. The model returns which provider is called, with its arguments.
\<close>

datatype provider =
    Person_email
  | Person_first_name
  | Person_last_name
  | Person_full_name
  | Person_phone_number
  | Address_address
  | Address_city
  | Address_country
  | Address_zip_code
  | Finance_company
  | Datetime_strftime
  | Decimal_number nat nat
  | Integer_number int int
  | Float_number int int nat
  | Text_word
  | Choice_bool

definition map_column_to_mimesis :: "string \<Rightarrow> string \<Rightarrow> provider" where
  "map_column_to_mimesis col_name col_type =
     (let name = lower col_name; t = lower col_type in
      if contains ''email'' name then Person_email
      else if contains ''first_name'' name \<or> contains ''firstname'' name then Person_first_name
      else if contains ''last_name'' name \<or> contains ''lastname'' name then Person_last_name
      else if contains ''name'' name then Person_full_name
      else if contains ''phone'' name \<or> contains ''tel'' name then Person_phone_number
      else if contains ''address'' name then Address_address
      else if contains ''city'' name then Address_city
      else if contains ''country'' name then Address_country
      else if contains ''zip'' name \<or> contains ''postal'' name then Address_zip_code
      else if contains ''company'' name then Finance_company
      else if contains ''date'' name \<or> contains ''created_at'' name \<or> contains ''updated_at'' name
        then Datetime_strftime
      else if contains ''price'' name \<or> contains ''amount'' name \<or> contains ''salary'' name
        then Decimal_number 10 2
      else if startswith name ''id_'' \<and> name \<noteq> ''id_usuario'' \<and> name \<noteq> ''id''
        then Integer_number 1 10
      else if contains ''int'' t then Integer_number 1 100000
      else if contains ''float'' t \<or> contains ''decimal'' t \<or> contains ''numeric'' t
              \<or> contains ''double'' t
        then Float_number 1 1000000 2
      else if contains ''char'' t \<or> contains ''text'' t then Text_word
      else if contains ''bool'' t \<or> contains ''bit'' t then Choice_bool
      else Text_word)"


section \<open>Regular expressions\<close>

text \<open>
  The program uses three patterns, each with \<^verbatim>\<open>re.search\<close> and \<^verbatim>\<open>re.IGNORECASE\<close>.
  A pattern is modelled by the backtracking matcher it stands for: every part gives the
  list of the texts that can remain after it, in the order the matcher tries them (a
  greedy repetition the longest match first), and \<open>first_match\<close> takes the first
  alternative on which the rest of the pattern matches.
\<close>

fun lit_ci :: "string \<Rightarrow> string \<Rightarrow> string option" where
  \<comment> \<open>a literal text, letters compared without case: what is left of the subject\<close>
  "lit_ci [] s = Some s"
| "lit_ci (p # ps) [] = None"
| "lit_ci (p # ps) (c # cs) = (if lower_char p = lower_char c then lit_ci ps cs else None)"

fun spaces_star :: "string \<Rightarrow> string list" where
  \<comment> \<open>\<^verbatim>\<open>\s*\<close>\<close>
  "spaces_star [] = [[]]"
| "spaces_star (c # cs) = (if is_space c then spaces_star cs @ [c # cs] else [c # cs])"

fun spaces_plus :: "string \<Rightarrow> string list" where
  \<comment> \<open>\<^verbatim>\<open>\s+\<close>\<close>
  "spaces_plus [] = []"
| "spaces_plus (c # cs) = (if is_space c then spaces_star cs else [])"

fun opt_char :: "string \<Rightarrow> string \<Rightarrow> string list" where
  \<comment> \<open>an optional character out of \<open>qs\<close>, as in \<^verbatim>\<open>(?:"|'|`|\[)?\<close>\<close>
  "opt_char qs [] = [[]]"
| "opt_char qs (c # cs) = (if c \<in> set qs then [cs, c # cs] else [c # cs])"

fun first_match :: "('a \<Rightarrow> 'b option) \<Rightarrow> 'a list \<Rightarrow> 'b option" where
  "first_match f [] = None"
| "first_match f (x # xs) = (case f x of Some y \<Rightarrow> Some y | None \<Rightarrow> first_match f xs)"

fun re_search :: "(string \<Rightarrow> 'a option) \<Rightarrow> string \<Rightarrow> 'a option" where
  \<comment> \<open>\<^verbatim>\<open>re.search\<close>: the match at the leftmost position that has one\<close>
  "re_search pat [] = pat []"
| "re_search pat (c # cs) =
     (case pat (c # cs) of Some g \<Rightarrow> Some g | None \<Rightarrow> re_search pat cs)"

fun body_close :: "string \<Rightarrow> string option" where
  \<comment> \<open>\<^verbatim>\<open>(.*?)\);\<close> with \<^verbatim>\<open>re.DOTALL\<close> at the end of a pattern: the group\<close>
  "body_close [] = None"
| "body_close (c # cs) =
     (if startswith (c # cs) '');'' then Some [] else map_option ((#) c) (body_close cs))"

definition open_quotes :: string where
  "open_quotes = [CHR 0x22, CHR 0x27, CHR 0x60, CHR ''['']"

definition close_quotes :: string where
  "close_quotes = [CHR 0x22, CHR 0x27, CHR 0x60, CHR '']'']"

definition paren_body :: "string \<Rightarrow> string option" where
  \<comment> \<open>\<^verbatim>\<open>\((.*?)\);\<close>\<close>
  "paren_body s = (case s of [] \<Rightarrow> None
                   | c # cs \<Rightarrow> if c = CHR ''('' then body_close cs else None)"

definition after_name :: "string \<Rightarrow> string option" where
  \<comment> \<open>\<^verbatim>\<open>(?:"|'|`|\])?\s*\((.*?)\);\<close>\<close>
  "after_name s = first_match (\<lambda>s1. first_match paren_body (spaces_star s1))
                    (opt_char close_quotes s)"

definition name_part :: "string \<Rightarrow> string \<Rightarrow> string option" where
  \<comment> \<open>from the optional opening quote on; the table name is escaped, which makes it a
      literal text\<close>
  "name_part table_name s =
     first_match (\<lambda>s1. case lit_ci table_name s1 of None \<Rightarrow> None | Some s2 \<Rightarrow> after_name s2)
       (opt_char open_quotes s)"

definition after_table :: "string \<Rightarrow> string \<Rightarrow> string option" where
  \<comment> \<open>what follows \<^verbatim>\<open>TABLE\<close> in the pattern\<close>
  "after_table table_name s = first_match (name_part table_name) (spaces_plus s)"

definition table_pattern :: "string \<Rightarrow> string \<Rightarrow> string option" where
  \<comment> \<open>the pattern of \<^verbatim>\<open>parse_schema\<close>,
      \<^verbatim>\<open>CREATE\s+TABLE\s+(?:"|'|`|\[)?name(?:"|'|`|\])?\s*\((.*?)\);\<close>,
      matched at the start of \<open>s\<close>: group 1\<close>
  "table_pattern table_name s =
     (case lit_ci ''CREATE'' s of None \<Rightarrow> None | Some s1 \<Rightarrow>
        first_match (\<lambda>s2. case lit_ci ''TABLE'' s2 of None \<Rightarrow> None
                           | Some s3 \<Rightarrow> after_table table_name s3)
          (spaces_plus s1))"

definition is_ident_char :: "char \<Rightarrow> bool" where
  \<comment> \<open>the class \<^verbatim>\<open>[a-zA-Z0-9_\[\]`"']\<close>\<close>
  "is_ident_char c = (c \<in> set (lower_letters @ upper_letters @ ''0123456789_[]''
                                   @ [CHR 0x60, CHR 0x22, CHR 0x27]))"

definition ident_plus :: "string \<Rightarrow> string option" where
  \<comment> \<open>the class repeated once or more, greedy, at the end of a pattern: the group\<close>
  "ident_plus s = (if takeWhile is_ident_char s = [] then None
                   else Some (takeWhile is_ident_char s))"

definition use_pattern :: "string \<Rightarrow> string option" where
  "use_pattern s =
     (case lit_ci ''USE'' s of None \<Rightarrow> None | Some s1 \<Rightarrow>
        first_match ident_plus (spaces_plus s1))"

definition create_pattern :: "string \<Rightarrow> string option" where
  "create_pattern s =
     (case lit_ci ''CREATE'' s of None \<Rightarrow> None | Some s1 \<Rightarrow>
        first_match (\<lambda>s2. case lit_ci ''DATABASE'' s2 of None \<Rightarrow> None | Some s3 \<Rightarrow>
          first_match ident_plus (spaces_plus s3))
          (spaces_plus s1))"


section \<open>The context detector\<close>

definition strip_quotes :: "string \<Rightarrow> string" where
  \<comment> \<open>\<^verbatim>\<open>s.strip('[]"`\'')\<close>\<close>
  "strip_quotes s =
     strip_chars (\<lambda>c. c \<in> set [CHR ''['', CHR '']'', CHR 0x22, CHR 0x60, CHR 0x27]) s"

definition extract_database_name :: "string \<Rightarrow> string \<Rightarrow> string option" where
  "extract_database_name sql_content engine =
     (case re_search use_pattern sql_content of
        Some g \<Rightarrow> Some (strip_quotes g)
      | None \<Rightarrow>
          (case re_search create_pattern sql_content of
             Some g \<Rightarrow> Some (strip_quotes g)
           | None \<Rightarrow> None))"


section \<open>The schema extractor\<close>

record column =
  col_name :: string
  col_type :: string
  is_identity :: bool

subsection \<open>The structured pass\<close>

text \<open>
  The structured pass reads the statements an external SQL parser returns. The parser
  is a parameter of the model: for a script and a dialect it raises (\<open>None\<close>) or returns
  the statements. A statement is kept as far as the program looks at it:
  \<open>Create_table n defs\<close> is a statement that passes the program's test for the
  creation of a table, named \<open>n\<close> and with the schema definitions \<open>defs\<close>; \<open>ColumnDef n k cs\<close> is a column definition named \<open>n\<close>, with its
  kind and its constraints as the parser renders them for the dialect. A column
  definition without a kind makes the program raise, which abandons the dialect.
\<close>

datatype dialect = Mysql | Postgres | Oracle | Tsql

definition dialects :: "dialect list" where
  "dialects = [Mysql, Postgres, Oracle, Tsql]"

datatype schema_def = ColumnDef string "string option" "string list" | Other_def

datatype expression = Create_table string "schema_def list" | Other_expression

type_synonym sql_parser = "string \<Rightarrow> dialect \<Rightarrow> expression list option"

definition identity_text :: "string \<Rightarrow> bool" where
  "identity_text s = (contains ''IDENTITY'' (upper s) \<or> contains ''AUTO_INCREMENT'' (upper s)
                      \<or> contains ''SERIAL'' (upper s))"

fun column_defs :: "schema_def list \<Rightarrow> column list option" where
  "column_defs [] = Some []"
| "column_defs (Other_def # ds) = column_defs ds"
| "column_defs (ColumnDef n None cs # ds) = None"
| "column_defs (ColumnDef n (Some k) cs # ds) =
     map_option ((#) \<lparr>col_name = n, col_type = k, is_identity = list_ex identity_text cs\<rparr>)
       (column_defs ds)"

fun find_create :: "string \<Rightarrow> expression list \<Rightarrow> column list option option" where
  \<comment> \<open>the first \<^verbatim>\<open>Create\<close> of the requested table decides; \<open>Some None\<close>: it raised\<close>
  "find_create table_name [] = None"
| "find_create table_name (Other_expression # es) = find_create table_name es"
| "find_create table_name (Create_table n defs # es) =
     (if lower n = lower table_name then Some (column_defs defs)
      else find_create table_name es)"

fun structured_pass :: "sql_parser \<Rightarrow> string \<Rightarrow> string \<Rightarrow> dialect list \<Rightarrow> column list option" where
  "structured_pass parse sql_content table_name [] = None"
| "structured_pass parse sql_content table_name (d # ds) =
     (case parse sql_content d of
        None \<Rightarrow> structured_pass parse sql_content table_name ds
      | Some es \<Rightarrow>
          (case find_create table_name es of
             Some (Some columns) \<Rightarrow> Some columns
           | _ \<Rightarrow> structured_pass parse sql_content table_name ds))"

subsection \<open>The fallback pass\<close>

fun split_loop :: "string \<Rightarrow> string list \<Rightarrow> string \<Rightarrow> int \<Rightarrow> string list \<times> string" where
  \<comment> \<open>the loop over \<^verbatim>\<open>col_content\<close>, with \<^verbatim>\<open>col_definitions\<close>, \<^verbatim>\<open>current_col\<close> and
      \<^verbatim>\<open>paren_depth\<close>\<close>
  "split_loop [] defs cur depth = (defs, cur)"
| "split_loop (c # cs) defs cur depth =
     (if c = CHR ''('' then split_loop cs defs (cur @ [c]) (depth + 1)
      else if c = CHR '')'' then split_loop cs defs (cur @ [c]) (depth - 1)
      else if c = CHR '','' \<and> depth = 0 then split_loop cs (defs @ [strip cur]) [] depth
      else split_loop cs defs (cur @ [c]) depth)"

definition col_definitions :: "string \<Rightarrow> string list" where
  \<comment> \<open>the comma-aware split of lines 130 to 146\<close>
  "col_definitions col_content =
     (case split_loop col_content [] [] 0 of
        (defs, cur) \<Rightarrow> if cur \<noteq> [] then defs @ [strip cur] else defs)"

definition constraint_words :: "string list" where
  "constraint_words = [''PRIMARY'', ''FOREIGN'', ''KEY'', ''CONSTRAINT'', ''INDEX'']"

definition strip_name :: "string \<Rightarrow> string" where
  \<comment> \<open>\<^verbatim>\<open>s.strip('"`\'[]')\<close>\<close>
  "strip_name s =
     strip_chars (\<lambda>c. c \<in> set [CHR 0x22, CHR 0x60, CHR 0x27, CHR ''['', CHR '']'']) s"

fun columns :: "string list \<Rightarrow> column list" where
  \<comment> \<open>the loop over \<^verbatim>\<open>col_definitions\<close> of lines 148 to 162\<close>
  "columns [] = []"
| "columns (l # ls) =
     (let line = strip l in
      if line = [] \<or> list_ex (startswith (upper line)) constraint_words then columns ls
      else (case split line of
              [] \<Rightarrow> columns ls
            | p # ps \<Rightarrow>
                \<lparr>col_name = strip_name p,
                 col_type = (case ps of [] \<Rightarrow> ''TEXT'' | t # ts \<Rightarrow> t),
                 is_identity = identity_text line\<rparr> # columns ls))"

definition fallback_pass :: "string \<Rightarrow> string \<Rightarrow> column list" where
  \<comment> \<open>lines 123 to 165: what \<^verbatim>\<open>parse_schema\<close> does once the structured pass has
      returned nothing\<close>
  "fallback_pass sql_content table_name =
     (case re_search (table_pattern table_name) sql_content of
        Some col_content \<Rightarrow> columns (col_definitions col_content)
      | None \<Rightarrow> [])"

definition parse_schema :: "sql_parser \<Rightarrow> string \<Rightarrow> string \<Rightarrow> column list" where
  "parse_schema parse sql_content table_name =
     (case structured_pass parse sql_content table_name dialects of
        Some cols \<Rightarrow> cols
      | None \<Rightarrow> fallback_pass sql_content table_name)"


section \<open>Notions the properties use\<close>

text \<open>
  The properties of the comma-aware split speak of balanced parentheses and of commas
  at parenthesis depth zero. \<open>nesting d s\<close> reads \<open>s\<close> from depth \<open>d\<close> and gives the depth
  at the end, or \<open>None\<close> when a closing parenthesis has no partner.
\<close>

fun nesting :: "nat \<Rightarrow> string \<Rightarrow> nat option" where
  "nesting d [] = Some d"
| "nesting d (c # cs) =
     (if c = CHR ''('' then nesting (Suc d) cs
      else if c = CHR '')'' then (case d of 0 \<Rightarrow> None | Suc e \<Rightarrow> nesting e cs)
      else nesting d cs)"

definition balanced :: "string \<Rightarrow> bool" where
  "balanced s = (nesting 0 s = Some 0)"

fun top_commas :: "nat \<Rightarrow> string \<Rightarrow> nat" where
  \<comment> \<open>the commas of \<open>s\<close> read at depth zero, reading from depth \<open>d\<close>\<close>
  "top_commas d [] = 0"
| "top_commas d (c # cs) =
     (if c = CHR ''('' then top_commas (Suc d) cs
      else if c = CHR '')'' then top_commas (d - 1) cs
      else if c = CHR '','' \<and> d = 0 then Suc (top_commas d cs)
      else top_commas d cs)"

fun paren_depth :: "string \<Rightarrow> int" where
  \<comment> \<open>what the counter \<^verbatim>\<open>paren_depth\<close> has added up after \<open>s\<close>\<close>
  "paren_depth [] = 0"
| "paren_depth (c # cs) =
     (if c = CHR ''('' then 1 else if c = CHR '')'' then - 1 else 0) + paren_depth cs"

definition quote_options :: "string \<Rightarrow> string list" where
  \<comment> \<open>no quote character, or one out of \<open>qs\<close>\<close>
  "quote_options qs = [] # map (\<lambda>q. [q]) qs"


section \<open>The literal formatter: properties\<close>

lemma replace_quote_concat:
  "replace_quote s = concat (map (\<lambda>c. if c = CHR 0x27 then [CHR 0x27, CHR 0x27] else [c]) s)"
  by (induction s) simp_all

text \<open>
  Claim C5. For every engine, formatting \<^verbatim>\<open>None\<close> gives \<^verbatim>\<open>NULL\<close>; formatting a string
  gives the string with every single quote doubled, between two single quotes. The
  string \<^verbatim>\<open>O'Brien\<close> is formatted as \<^verbatim>\<open>'O''Brien'\<close>.
\<close>

theorem format_sql_value_null_and_string:
  "format_sql_value str_float PyNone engine = ''NULL'' \<and>
   format_sql_value str_float (PyStr s) engine =
     [CHR 0x27] @ concat (map (\<lambda>c. if c = CHR 0x27 then [CHR 0x27, CHR 0x27] else [c]) s)
       @ [CHR 0x27] \<and>
   format_sql_value str_float (PyStr ''O'Brien'') engine =
     [CHR 0x27, CHR ''O'', CHR 0x27, CHR 0x27, CHR ''B'', CHR ''r'', CHR ''i'', CHR ''e'',
      CHR ''n'', CHR 0x27]"
  by (simp add: format_sql_value_def replace_quote_concat)

text \<open>
  Claim C6. A boolean is formatted before the numeric branch is reached, although it
  passes the numeric test: for the engine \<^verbatim>\<open>mssql\<close> as \<^verbatim>\<open>1\<close> and \<^verbatim>\<open>0\<close>, for every
  other engine as \<^verbatim>\<open>TRUE\<close> and \<^verbatim>\<open>FALSE\<close>, and never as the text the numeric branch
  would give (\<^verbatim>\<open>str\<close> of the value).
\<close>

theorem format_sql_value_bool:
  "format_sql_value str_float (PyBool True) ''mssql'' = ''1'' \<and>
   format_sql_value str_float (PyBool False) ''mssql'' = ''0'' \<and>
   (engine \<noteq> ''mssql'' \<longrightarrow>
      format_sql_value str_float (PyBool True) engine = ''TRUE'' \<and>
      format_sql_value str_float (PyBool False) engine = ''FALSE'') \<and>
   isinstance_int_float (PyBool b :: 'f py_value) \<and>
   format_sql_value str_float (PyBool b) engine \<noteq> py_str str_float (PyBool b)"
  by (simp add: format_sql_value_def)

theorem format_sql_value_bool_witness:
  "''postgresql'' \<noteq> ''mssql'' \<and>
   format_sql_value (\<lambda>x :: unit. ''0.0'') (PyBool True) ''postgresql'' = ''TRUE'' \<and>
   format_sql_value (\<lambda>x :: unit. ''0.0'') (PyBool False) ''postgresql'' = ''FALSE'' \<and>
   format_sql_value (\<lambda>x :: unit. ''0.0'') (PyBool True) ''mssql'' = ''1''"
  using format_sql_value_bool [of "\<lambda>x :: unit. ''0.0''" "''postgresql''" True] by simp


section \<open>The column classifier: properties\<close>

text \<open>
  Claim C7. The integer provider with the bounds 1 and 10 is chosen exactly for the
  column names that, in lower case, start with \<^verbatim>\<open>id_\<close>, are not \<^verbatim>\<open>id_usuario\<close> and hold
  none of the words the earlier name rules look for. It is not chosen for the names
  \<^verbatim>\<open>id\<close> and \<^verbatim>\<open>id_usuario\<close>, whatever the declared type.
\<close>

theorem id_prefix_rule:
  "(map_column_to_mimesis cn ct = Integer_number 1 10 \<longleftrightarrow>
      startswith (lower cn) ''id_'' \<and> lower cn \<noteq> ''id_usuario'' \<and>
      \<not> contains ''email'' (lower cn) \<and>
      \<not> contains ''first_name'' (lower cn) \<and> \<not> contains ''firstname'' (lower cn) \<and>
      \<not> contains ''last_name'' (lower cn) \<and> \<not> contains ''lastname'' (lower cn) \<and>
      \<not> contains ''name'' (lower cn) \<and>
      \<not> contains ''phone'' (lower cn) \<and> \<not> contains ''tel'' (lower cn) \<and>
      \<not> contains ''address'' (lower cn) \<and> \<not> contains ''city'' (lower cn) \<and>
      \<not> contains ''country'' (lower cn) \<and>
      \<not> contains ''zip'' (lower cn) \<and> \<not> contains ''postal'' (lower cn) \<and>
      \<not> contains ''company'' (lower cn) \<and>
      \<not> contains ''date'' (lower cn) \<and> \<not> contains ''created_at'' (lower cn) \<and>
      \<not> contains ''updated_at'' (lower cn) \<and>
      \<not> contains ''price'' (lower cn) \<and> \<not> contains ''amount'' (lower cn) \<and>
      \<not> contains ''salary'' (lower cn)) \<and>
   map_column_to_mimesis ''id'' ct \<noteq> Integer_number 1 10 \<and>
   map_column_to_mimesis ''id_usuario'' ct \<noteq> Integer_number 1 10"
proof -
  have l1: "lower ''id'' = ''id''" by code_simp
  have l2: "lower ''id_usuario'' = ''id_usuario''" by code_simp
  have a: "map_column_to_mimesis ''id'' ct \<noteq> Integer_number 1 10"
    by (simp add: map_column_to_mimesis_def Let_def l1)
  have b: "map_column_to_mimesis ''id_usuario'' ct \<noteq> Integer_number 1 10"
    by (simp add: map_column_to_mimesis_def Let_def l2)
  have n: "startswith (lower cn) ''id_'' \<Longrightarrow> lower cn \<noteq> ''id''"
    by auto
  show ?thesis
    using a b n by (simp add: map_column_to_mimesis_def Let_def)
qed


section \<open>The context detector: properties\<close>

text \<open>
  Claim C10. The pattern of the \<^verbatim>\<open>USE\<close> statement asks for no word boundary: in the
  script \<^verbatim>\<open>because foo\<close>, which has no such statement, the letters \<^verbatim>\<open>use\<close> at the end
  of a word are taken for one and \<^verbatim>\<open>foo\<close> is returned as the database name.
\<close>

theorem extract_database_name_because:
  "extract_database_name ''because foo'' engine = Some ''foo''"
  by code_simp


section \<open>The schema extractor: properties\<close>

lemma fallback_users:
  "fallback_pass
     ''CREATE TABLE users (id INT IDENTITY(1,1), email VARCHAR(255), created_at DATETIME);''
     ''users'' =
     [\<lparr>col_name = ''id'', col_type = ''INT'', is_identity = True\<rparr>,
      \<lparr>col_name = ''email'', col_type = ''VARCHAR(255)'', is_identity = False\<rparr>,
      \<lparr>col_name = ''created_at'', col_type = ''DATETIME'', is_identity = False\<rparr>]"
  by code_simp

lemma no_parser_no_columns: "structured_pass (\<lambda>sql d. None) sql_content table_name ds = None"
  by (induction ds) simp_all

text \<open>
  Claim C2. For the script
  \<^verbatim>\<open>CREATE TABLE users (id INT IDENTITY(1,1), email VARCHAR(255), created_at DATETIME);\<close>
  and the table \<^verbatim>\<open>users\<close>, the extraction returns three descriptors in this order:
  \<^verbatim>\<open>id\<close> of type \<^verbatim>\<open>INT\<close>, an identity column; \<^verbatim>\<open>email\<close> of type \<^verbatim>\<open>VARCHAR(255)\<close> and
  \<^verbatim>\<open>created_at\<close> of type \<^verbatim>\<open>DATETIME\<close>, neither an identity column. The external
  parser is a parameter: the statement is about every parser with which the structured
  pass returns nothing, so that the program's own fallback pass decides.
\<close>

theorem parse_schema_users:
  assumes "structured_pass parse
    ''CREATE TABLE users (id INT IDENTITY(1,1), email VARCHAR(255), created_at DATETIME);''
    ''users'' dialects = None"
  shows "parse_schema parse
    ''CREATE TABLE users (id INT IDENTITY(1,1), email VARCHAR(255), created_at DATETIME);''
    ''users'' =
     [\<lparr>col_name = ''id'', col_type = ''INT'', is_identity = True\<rparr>,
      \<lparr>col_name = ''email'', col_type = ''VARCHAR(255)'', is_identity = False\<rparr>,
      \<lparr>col_name = ''created_at'', col_type = ''DATETIME'', is_identity = False\<rparr>]"
  using assms by (simp only: parse_schema_def option.case fallback_users)

theorem parse_schema_users_witness:
  "parse_schema (\<lambda>sql d. None)
    ''CREATE TABLE users (id INT IDENTITY(1,1), email VARCHAR(255), created_at DATETIME);''
    ''users'' =
     [\<lparr>col_name = ''id'', col_type = ''INT'', is_identity = True\<rparr>,
      \<lparr>col_name = ''email'', col_type = ''VARCHAR(255)'', is_identity = False\<rparr>,
      \<lparr>col_name = ''created_at'', col_type = ''DATETIME'', is_identity = False\<rparr>]"
  by (rule parse_schema_users) (rule no_parser_no_columns)

text \<open>
  Claim C8. When the structured pass returns nothing and the fallback pattern matches
  nowhere in the script, the extraction returns the empty list. The result is a list in
  every case: no step of the fallback pass raises.
\<close>

theorem table_not_found:
  assumes "structured_pass parse sql_content table_name dialects = None"
    and "re_search (table_pattern table_name) sql_content = None"
  shows "parse_schema parse sql_content table_name = []"
  using assms by (simp add: parse_schema_def fallback_pass_def)

lemma search_orders:
  "re_search (table_pattern ''users'') ''CREATE TABLE orders (id INT);'' = None"
  by code_simp

theorem table_not_found_witness:
  "parse_schema (\<lambda>sql d. None) ''CREATE TABLE orders (id INT);'' ''users'' = []"
  using no_parser_no_columns search_orders by (rule table_not_found)

text \<open>
  Claim C1. The fallback pass drops a clause when its text in upper case starts with one
  of the five constraint words, also when the first token only begins with the word: the
  columns \<^verbatim>\<open>keywords\<close> and \<^verbatim>\<open>index_name\<close> of the table below are lost, and only \<^verbatim>\<open>id\<close> is
  returned.
\<close>

theorem keywords_column_dropped:
  "fallback_pass ''CREATE TABLE t (keywords TEXT, index_name INT, id INT);'' ''t'' =
     [\<lparr>col_name = ''id'', col_type = ''INT'', is_identity = False\<rparr>] \<and>
   hd (split ''keywords TEXT'') = ''keywords'' \<and>
   upper ''keywords'' \<notin> set constraint_words"
  by code_simp


subsection \<open>The comma-aware split\<close>

lemma space_not_paren: "is_space c \<Longrightarrow> c \<noteq> CHR ''('' \<and> c \<noteq> CHR '')'' \<and> c \<noteq> CHR '',''"
  by (auto simp: is_space_def)

lemma nesting_append:
  "nesting d (xs @ ys) = (case nesting d xs of None \<Rightarrow> None | Some e \<Rightarrow> nesting e ys)"
  by (induction xs arbitrary: d) (auto split: nat.splits)

lemma nesting_spaces: "\<forall>c\<in>set ws. is_space c \<Longrightarrow> nesting d ws = Some d"
  by (induction ws) (auto dest: space_not_paren)

lemma nesting_dropWhile: "nesting d (dropWhile is_space s) = nesting d s"
  by (induction s) (auto dest: space_not_paren)

lemma rstrip_split:
  "rev (dropWhile p (rev s)) @ rev (takeWhile p (rev s)) = s"
proof -
  have "rev (takeWhile p (rev s) @ dropWhile p (rev s)) = rev (rev s)"
    by (simp only: takeWhile_dropWhile_id)
  then show ?thesis by (simp only: rev_append rev_rev_ident)
qed

lemma nesting_rstrip: "nesting d (rev (dropWhile is_space (rev s))) = nesting d s"
proof -
  have ws: "\<forall>c\<in>set (rev (takeWhile is_space (rev s))). is_space c"
    by (auto dest: set_takeWhileD)
  have "nesting d s = nesting d (rev (dropWhile is_space (rev s)) @ rev (takeWhile is_space (rev s)))"
    by (simp only: rstrip_split)
  also have "\<dots> = nesting d (rev (dropWhile is_space (rev s)))"
    using ws by (simp add: nesting_append nesting_spaces split: option.splits)
  finally show ?thesis by simp
qed

lemma nesting_strip: "nesting d (strip s) = nesting d s"
  by (simp add: strip_def strip_chars_def nesting_rstrip nesting_dropWhile)

lemma balanced_strip: "balanced s \<Longrightarrow> balanced (strip s)"
  by (simp add: balanced_def nesting_strip)

lemma split_loop_balanced:
  assumes "nesting 0 cur = Some d" and "nesting d rest = Some 0"
    and "\<forall>x\<in>set defs. balanced x"
  shows "(\<forall>x\<in>set (fst (split_loop rest defs cur (int d))). balanced x) \<and>
         balanced (snd (split_loop rest defs cur (int d))) \<and>
         length (fst (split_loop rest defs cur (int d))) = length defs + top_commas d rest \<and>
         (snd (split_loop rest defs cur (int d)) = [] \<longleftrightarrow>
            (if rest = [] then cur = [] else last rest = CHR '',''))"
  using assms
proof (induction rest arbitrary: defs cur d)
  case Nil
  then show ?case by (simp add: balanced_def)
next
  case (Cons c cs)
  show ?case
  proof (cases "c = CHR ''(''")
    case True
    have a: "nesting 0 (cur @ [c]) = Some (Suc d)"
      using Cons.prems(1) True by (simp add: nesting_append)
    have b: "nesting (Suc d) cs = Some 0" using Cons.prems(2) True by simp
    have i: "int (Suc d) = int d + 1" by simp
    show ?thesis
      using Cons.IH [OF a b Cons.prems(3)] True unfolding i by (auto split: if_splits)
  next
    case False
    note nopen = this
    show ?thesis
    proof (cases "c = CHR '')''")
      case True
      then obtain e where d: "d = Suc e" and b: "nesting e cs = Some 0"
        using Cons.prems(2) by (auto split: nat.splits)
      have a: "nesting 0 (cur @ [c]) = Some e"
        using Cons.prems(1) True d by (simp add: nesting_append)
      have i: "int d - 1 = int e" using d by simp
      show ?thesis
        using Cons.IH [OF a b Cons.prems(3)] True d unfolding i [symmetric]
        by (auto split: if_splits)
    next
      case False
      note nclose = this
      have b: "nesting d cs = Some 0" using Cons.prems(2) nopen nclose by simp
      show ?thesis
      proof (cases "c = CHR '','' \<and> d = 0")
        case True
        have bc: "balanced (strip cur)"
          using Cons.prems(1) True by (simp add: balanced_def nesting_strip)
        have a: "nesting 0 [] = Some 0" by simp
        have b0: "nesting 0 cs = Some 0" using b True by simp
        have p: "\<forall>x\<in>set (defs @ [strip cur]). balanced x"
          using Cons.prems(3) bc by simp
        show ?thesis
          using Cons.IH [OF a b0 p] True by (auto split: if_splits)
      next
        case False
        have a: "nesting 0 (cur @ [c]) = Some d"
          using Cons.prems(1) nopen nclose by (simp add: nesting_append)
        show ?thesis
          using Cons.IH [OF a b Cons.prems(3)] False nopen nclose b
          by (auto split: if_splits)
      qed
    qed
  qed
qed

text \<open>
  Claim C3, as the program has it. For an input with balanced parentheses the split
  gives one segment for each comma at depth zero, and one more when the input is not
  empty and does not end with a comma (a last fragment without any character is
  dropped); every segment has balanced parentheses.
\<close>

theorem col_definitions_balanced:
  assumes "balanced s"
  shows "length (col_definitions s) =
           top_commas 0 s + (if s = [] \<or> last s = CHR '','' then 0 else 1) \<and>
         (\<forall>seg\<in>set (col_definitions s). balanced seg)"
proof -
  have a: "nesting 0 [] = Some 0" by simp
  have b: "nesting 0 s = Some 0" using assms by (simp add: balanced_def)
  have p: "\<forall>x\<in>set ([] :: string list). balanced x" by simp
  show ?thesis
    using split_loop_balanced [OF a b p]
    by (cases "split_loop s [] [] 0") (auto simp: col_definitions_def balanced_strip)
qed

theorem col_definitions_balanced_witness:
  "balanced ''a INT, b DECIMAL(10,2)'' \<and>
   length (col_definitions ''a INT, b DECIMAL(10,2)'') = top_commas 0 ''a INT, b DECIMAL(10,2)'' + 1 \<and>
   col_definitions ''a INT, b DECIMAL(10,2)'' = [''a INT'', ''b DECIMAL(10,2)''] \<and>
   list_all balanced (col_definitions ''a INT, b DECIMAL(10,2)'')"
proof -
  have b: "balanced ''a INT, b DECIMAL(10,2)''" by code_simp
  have c: "col_definitions ''a INT, b DECIMAL(10,2)'' = [''a INT'', ''b DECIMAL(10,2)'']"
    by code_simp
  have t: "top_commas 0 ''a INT, b DECIMAL(10,2)'' = 1" by code_simp
  show ?thesis
    using b c t col_definitions_balanced [OF b] by (simp add: list_all_iff)
qed

text \<open>
  The claim as the specification states it fails on an input that ends with a comma at
  depth zero: \<^verbatim>\<open>a,\<close> is balanced and has one such comma, and the split gives one segment.
\<close>

theorem col_definitions_count_counterexample:
  "balanced ''a,'' \<and> top_commas 0 ''a,'' = 1 \<and> col_definitions ''a,'' = [''a''] \<and>
   length (col_definitions ''a,'') \<noteq> top_commas 0 ''a,'' + 1"
  by code_simp


lemma strip_chars_ends:
  "strip_chars p s = [] \<or> (\<not> p (hd (strip_chars p s)) \<and> \<not> p (last (strip_chars p s)))"
proof (cases "strip_chars p s = []")
  case True
  then show ?thesis by simp
next
  case False
  define t where "t = dropWhile p s"
  define u where "u = dropWhile p (rev t)"
  have su: "strip_chars p s = rev u" by (simp add: strip_chars_def t_def u_def)
  have u: "u \<noteq> []" using False su by simp
  then have l: "\<not> p (hd u)" unfolding u_def by (rule hd_dropWhile)
  have t: "t \<noteq> []" using u unfolding u_def by auto
  have "last u = last (rev t)"
    using u unfolding u_def
    by (metis last_appendR takeWhile_dropWhile_id)
  then have "last u = hd t" using t by (simp add: last_rev)
  moreover have "\<not> p (hd t)" using t unfolding t_def by (rule hd_dropWhile)
  ultimately have h: "\<not> p (last u)" by simp
  show ?thesis using su u l h by (simp add: hd_rev last_rev)
qed

lemma strip_ends: "strip s = [] \<or> (\<not> is_space (hd (strip s)) \<and> \<not> is_space (last (strip s)))"
  unfolding strip_def by (rule strip_chars_ends)

lemma strip_spaces:
  assumes "\<forall>c\<in>set ws. is_space c"
  shows "strip ws = []"
proof -
  have h: "dropWhile is_space ws = []" using assms by simp
  show ?thesis unfolding strip_def strip_chars_def h by simp
qed

lemma split_loop_stripped:
  "\<forall>x\<in>set defs. \<exists>y. x = strip y \<Longrightarrow>
   \<forall>x\<in>set (fst (split_loop rest defs cur d)). \<exists>y. x = strip y"
proof (induction rest arbitrary: defs cur d)
  case Nil
  then show ?case by simp
next
  case (Cons c cs)
  have p: "\<forall>x\<in>set (defs @ [strip cur]). \<exists>y. x = strip y"
    using Cons.prems by auto
  show ?case
    using Cons.IH [OF Cons.prems] Cons.IH [OF p] by simp
qed

lemma split_loop_append:
  "split_loop (xs @ ys) defs cur d =
     split_loop ys (fst (split_loop xs defs cur d)) (snd (split_loop xs defs cur d))
       (d + paren_depth xs)"
  by (induction xs arbitrary: defs cur d) (auto simp: algebra_simps)

lemma split_loop_spaces:
  "\<forall>c\<in>set ws. is_space c \<Longrightarrow> split_loop ws defs cur d = (defs, cur @ ws)"
  by (induction ws arbitrary: cur) (auto dest: space_not_paren)

text \<open>
  Claim C4, as the program has it. Every clause the split gives is stripped: it is
  empty, or its first and its last character are not white space. A clause can be empty:
  only a last fragment without any character is dropped, so when a comma at depth zero
  is followed by white space alone up to the end of the input, the last clause is the
  empty string.
\<close>

theorem col_definitions_stripped:
  "(\<forall>seg\<in>set (col_definitions s).
      seg = [] \<or> (\<not> is_space (hd seg) \<and> \<not> is_space (last seg))) \<and>
   (paren_depth s = 0 \<and> ws \<noteq> [] \<and> (\<forall>c\<in>set ws. is_space c) \<longrightarrow>
      col_definitions (s @ '','' @ ws) \<noteq> [] \<and> last (col_definitions (s @ '','' @ ws)) = [])"
proof (intro conjI impI ballI)
  fix seg assume seg: "seg \<in> set (col_definitions s)"
  have "\<forall>x\<in>set ([] :: string list). \<exists>y. x = strip y" by simp
  then have "\<forall>x\<in>set (fst (split_loop s [] [] 0)). \<exists>y. x = strip y"
    by (rule split_loop_stripped)
  then have "\<exists>y. seg = strip y"
    using seg by (cases "split_loop s [] [] 0") (auto simp: col_definitions_def split: if_splits)
  then show "seg = [] \<or> (\<not> is_space (hd seg) \<and> \<not> is_space (last seg))"
    using strip_ends by auto
next
  assume a: "paren_depth s = 0 \<and> ws \<noteq> [] \<and> (\<forall>c\<in>set ws. is_space c)"
  obtain defs cur where r: "split_loop s [] [] 0 = (defs, cur)" by (cases "split_loop s [] [] 0")
  have "split_loop (s @ '','' @ ws) [] [] 0 = split_loop ('','' @ ws) defs cur 0"
    using a r by (simp add: split_loop_append [of s])
  also have "\<dots> = split_loop ws (defs @ [strip cur]) [] 0" by simp
  also have "\<dots> = (defs @ [strip cur], ws)" using a by (simp add: split_loop_spaces)
  finally have "col_definitions (s @ '','' @ ws) = defs @ [strip cur] @ [strip ws]"
    using a by (simp add: col_definitions_def)
  then have c: "col_definitions (s @ '','' @ ws) = defs @ [strip cur] @ [[]]"
    using a by (simp add: strip_spaces)
  show "col_definitions (s @ '','' @ ws) \<noteq> []" using c by simp
  show "last (col_definitions (s @ '','' @ ws)) = []" using c by simp
qed

theorem col_definitions_stripped_witness:
  "paren_depth ''a INT, b DECIMAL(10,2)'' = 0 \<and>
   col_definitions (''a INT, b DECIMAL(10,2)'' @ '','' @ '' '') = [''a INT'', ''b DECIMAL(10,2)'', []] \<and>
   last (col_definitions (''a INT, b DECIMAL(10,2)'' @ '','' @ '' '')) = [] \<and>
   list_all (\<lambda>seg. seg = [] \<or> \<not> is_space (hd seg) \<and> \<not> is_space (last seg))
     (col_definitions ''a INT, b DECIMAL(10,2)'')"
proof -
  have p: "paren_depth ''a INT, b DECIMAL(10,2)'' = 0" by code_simp
  have w: "'' '' \<noteq> [] \<and> (\<forall>c\<in>set '' ''. is_space c)" by (simp add: is_space_def)
  have c: "col_definitions (''a INT, b DECIMAL(10,2)'' @ '','' @ '' '') = [''a INT'', ''b DECIMAL(10,2)'', []]"
    by code_simp
  show ?thesis
    using p w c col_definitions_stripped [of "''a INT, b DECIMAL(10,2)''" "'' ''"]
    by (simp add: list_all_iff)
qed

text \<open>
  The claim as the specification states it fails on the input \<^verbatim>\<open>a,\<close> followed by a space:
  the empty string is one of the clauses.
\<close>

theorem col_definitions_empty_clause: "[] \<in> set (col_definitions ''a, '')"
  by code_simp



subsection \<open>The fallback pattern\<close>

lemma lower_char_paren: "lower_char c = CHR ''('' \<Longrightarrow> c = CHR ''(''"
  by (auto simp: lower_char_def upper_letters_def lower_letters_def split: option.splits if_splits)

lemma first_match_Some: "first_match f xs = Some g \<Longrightarrow> \<exists>x\<in>set xs. f x = Some g"
  by (induction xs) (auto split: option.splits)

lemma first_match_found: "x \<in> set xs \<Longrightarrow> f x \<noteq> None \<Longrightarrow> first_match f xs \<noteq> None"
  by (induction xs) (auto split: option.splits)

lemma lit_ci_Some:
  "lit_ci p s = Some r \<Longrightarrow> \<exists>p'. s = p' @ r \<and> map lower_char p' = map lower_char p"
proof (induction p s rule: lit_ci.induct)
  case (1 s)
  then show ?case by simp
next
  case (2 p ps)
  then show ?case by simp
next
  case (3 p ps c cs)
  then obtain q where "cs = q @ r" "map lower_char q = map lower_char ps" and "lower_char p = lower_char c"
    by (auto split: if_splits)
  then have "c # cs = (c # q) @ r \<and> map lower_char (c # q) = map lower_char (p # ps)" by simp
  then show ?case by blast
qed

lemma lit_ci_self: "lit_ci p (p @ r) = Some r"
  by (induction p) simp_all

lemma spaces_star_self: "s \<in> set (spaces_star s)"
  by (cases s) simp_all

lemma spaces_star_set:
  "r \<in> set (spaces_star s) \<Longrightarrow> \<exists>ws. s = ws @ r \<and> (\<forall>c\<in>set ws. is_space c)"
proof (induction s)
  case Nil
  then show ?case by simp
next
  case (Cons c cs)
  show ?case
  proof (cases "r = c # cs")
    case True
    then have "c # cs = [] @ r \<and> (\<forall>c\<in>set []. is_space c)" by simp
    then show ?thesis by blast
  next
    case False
    then have "is_space c" and "r \<in> set (spaces_star cs)"
      using Cons.prems by (auto split: if_splits)
    then obtain ws where "cs = ws @ r" "\<forall>c\<in>set ws. is_space c" using Cons.IH by blast
    then have "c # cs = (c # ws) @ r \<and> (\<forall>x\<in>set (c # ws). is_space x)"
      using \<open>is_space c\<close> by simp
    then show ?thesis by blast
  qed
qed

lemma spaces_plus_set:
  assumes "r \<in> set (spaces_plus s)"
  shows "\<exists>ws. ws \<noteq> [] \<and> s = ws @ r \<and> (\<forall>c\<in>set ws. is_space c)"
proof (cases s)
  case Nil
  then show ?thesis using assms by simp
next
  case (Cons c cs)
  then have "is_space c" and "r \<in> set (spaces_star cs)"
    using assms by (auto split: if_splits)
  then obtain ws where "cs = ws @ r" "\<forall>c\<in>set ws. is_space c" using spaces_star_set by blast
  then have "c # ws \<noteq> [] \<and> s = (c # ws) @ r \<and> (\<forall>x\<in>set (c # ws). is_space x)"
    using \<open>is_space c\<close> Cons by simp
  then show ?thesis by blast
qed

lemma opt_char_set:
  "r \<in> set (opt_char qs s) \<Longrightarrow> \<exists>a. s = a @ r \<and> length a \<le> 1 \<and> set a \<subseteq> set qs"
proof (cases s)
  case Nil
  assume "r \<in> set (opt_char qs s)"
  then have "s = [] @ r \<and> length ([] :: string) \<le> 1 \<and> set [] \<subseteq> set qs" using Nil by simp
  then show ?thesis by blast
next
  case (Cons c cs)
  assume "r \<in> set (opt_char qs s)"
  then consider "r = s" | "c \<in> set qs" "r = cs" using Cons by (auto split: if_splits)
  then show ?thesis
  proof cases
    case 1
    then have "s = [] @ r \<and> length ([] :: string) \<le> 1 \<and> set [] \<subseteq> set qs" by simp
    then show ?thesis by blast
  next
    case 2
    then have "s = [c] @ r \<and> length [c] \<le> 1 \<and> set [c] \<subseteq> set qs" using Cons by simp
    then show ?thesis by blast
  qed
qed

lemma opt_char_self: "s \<in> set (opt_char qs s)"
  by (cases s) simp_all

lemma opt_char_taken: "q \<in> set qs \<Longrightarrow> r \<in> set (opt_char qs (q # r))"
  by simp

lemma paren_body_Some:
  "paren_body s = Some g \<Longrightarrow> \<exists>r. s = CHR ''('' # r \<and> body_close r = Some g"
  by (cases s) (auto simp: paren_body_def split: if_splits)

lemma body_close_total: "body_close (body @ '');'') \<noteq> None"
  by (induction body) simp_all

lemma conj_set:
  "w \<noteq> [] \<Longrightarrow> u @ v = w @ u @ r \<Longrightarrow> set u \<subseteq> set w"
proof (induction "length u" arbitrary: u v rule: less_induct)
  case less
  show ?case
  proof (cases "length u \<le> length w")
    case True
    then have "u = take (length u) w"
      using less.prems(2) by (metis append_eq_append_conv_if append_eq_conv_conj)
    then have "set u \<subseteq> set (take (length u) w)" by simp
    then show ?thesis using set_take_subset by fast
  next
    case False
    then obtain u' where u: "u = w @ u'"
      using less.prems(2) by (metis append_eq_append_conv_if append_take_drop_id nat_le_linear)
    then have e: "u' @ v = w @ u' @ r" using less.prems(2) by simp
    have "length u' < length u" using u less.prems(1) by simp
    then have "set u' \<subseteq> set w" using less.hyps less.prems(1) e by blast
    then show ?thesis using u by auto
  qed
qed

lemma shift_set:
  assumes "a @ u @ v = b @ u @ r" and "length a \<noteq> length b"
  shows "set u \<subseteq> set a \<union> set b"
proof (cases "length a < length b")
  case True
  then obtain w where b: "b = a @ w" and w: "w \<noteq> []"
    using assms(1) by (metis append_eq_append_conv_if append_take_drop_id less_imp_le_nat
        less_irrefl_nat append_Nil2)
  then have "u @ v = w @ u @ r" using assms(1) by simp
  then have "set u \<subseteq> set w" using w conj_set by blast
  then show ?thesis using b by auto
next
  case False
  then have "length b < length a" using assms(2) by simp
  then obtain w where a: "a = b @ w" and w: "w \<noteq> []"
    using assms(1) by (metis append_eq_append_conv_if append_take_drop_id less_imp_le_nat
        less_irrefl_nat append_Nil2)
  then have "u @ r = w @ u @ v" using assms(1) by simp
  then have "set u \<subseteq> set w" using w conj_set by blast
  then show ?thesis using a by auto
qed

lemma mark_not_paren:
  "is_space c \<or> c \<in> set open_quotes \<or> c \<in> set close_quotes \<Longrightarrow> lower_char c \<noteq> CHR ''(''"
  by (auto simp: is_space_def open_quotes_def close_quotes_def dest!: lower_char_paren)

lemma lower_char_paren_self: "lower_char (CHR ''('') = CHR ''(''"
  by code_simp

lemma first_occurrence:
  "x \<notin> set xs \<Longrightarrow> x \<notin> set xs' \<Longrightarrow> xs @ x # ys = xs' @ x # ys' \<Longrightarrow> ys = ys'"
proof (induction xs arbitrary: xs')
  case Nil
  then show ?case by (cases xs') auto
next
  case (Cons a xs)
  then show ?case by (cases xs') auto
qed

lemma paren_unique:
  assumes eq: "sp # oq @ n @ cq @ sp2 # CHR ''('' # B = ws @ a @ n' @ b @ ws' @ CHR ''('' # R"
    and sp: "is_space sp" "is_space sp2"
    and oq: "set oq \<subseteq> set open_quotes"
    and cq: "set cq \<subseteq> set close_quotes"
    and ws: "\<forall>c\<in>set ws. is_space c"
    and a: "set a \<subseteq> set open_quotes"
    and n': "map lower_char n' = map lower_char n"
    and b: "set b \<subseteq> set close_quotes"
    and ws': "\<forall>c\<in>set ws'. is_space c"
  shows "R = B"
proof -
  have len: "length n' = length n" using n' by (metis length_map)
  have m1: "\<forall>c\<in>set (cq @ [sp2]). lower_char c \<noteq> CHR ''(''"
    using cq sp mark_not_paren by auto
  have m2: "\<forall>c\<in>set (b @ ws'). lower_char c \<noteq> CHR ''(''"
    using b ws' mark_not_paren by auto
  have m3: "\<forall>c\<in>set (sp # oq). lower_char c \<noteq> CHR ''(''"
    using oq sp mark_not_paren by auto
  have m4: "\<forall>c\<in>set (ws @ a). lower_char c \<noteq> CHR ''(''"
    using a ws mark_not_paren by auto
  have np: "\<And>xs. \<forall>c\<in>set xs. lower_char c \<noteq> CHR ''('' \<Longrightarrow> CHR ''('' \<notin> set xs"
    using lower_char_paren_self by auto
  show ?thesis
  proof (cases "length (sp # oq) = length (ws @ a)")
    case True
    have "(sp # oq) @ (n @ cq @ sp2 # CHR ''('' # B) = (ws @ a) @ (n' @ b @ ws' @ CHR ''('' # R)"
      using eq by simp
    then have "n @ (cq @ sp2 # CHR ''('' # B) = n' @ (b @ ws' @ CHR ''('' # R)"
      using True by (metis append_eq_append_conv)
    then have "cq @ sp2 # CHR ''('' # B = b @ ws' @ CHR ''('' # R"
      using len by (metis append_eq_append_conv)
    then have "(cq @ [sp2]) @ CHR ''('' # B = (b @ ws') @ CHR ''('' # R" by simp
    then show ?thesis
      by (rule first_occurrence [OF np [OF m1] np [OF m2], symmetric])
  next
    case False
    have "map lower_char (sp # oq @ n @ cq @ sp2 # CHR ''('' # B) =
          map lower_char (ws @ a @ n' @ b @ ws' @ CHR ''('' # R)"
      using eq by simp
    then have "map lower_char (sp # oq) @ map lower_char n @ map lower_char (cq @ sp2 # CHR ''('' # B) =
          map lower_char (ws @ a) @ map lower_char n @ map lower_char (b @ ws' @ CHR ''('' # R)"
      using n' by simp
    moreover have "length (map lower_char (sp # oq)) \<noteq> length (map lower_char (ws @ a))"
      using False by simp
    ultimately have sub: "set (map lower_char n) \<subseteq>
        set (map lower_char (sp # oq)) \<union> set (map lower_char (ws @ a))"
      by (rule shift_set)
    have nn: "\<forall>c\<in>set n. lower_char c \<noteq> CHR ''(''"
    proof
      fix c assume "c \<in> set n"
      then have "lower_char c \<in> set (map lower_char (sp # oq)) \<union> set (map lower_char (ws @ a))"
        using sub by auto
      then obtain d where "d \<in> set (sp # oq) \<union> set (ws @ a)" "lower_char c = lower_char d"
        by auto
      then show "lower_char c \<noteq> CHR ''(''" using m3 m4 by auto
    qed
    have nn': "\<forall>c\<in>set n'. lower_char c \<noteq> CHR ''(''"
    proof
      fix c assume "c \<in> set n'"
      then have "lower_char c \<in> set (map lower_char n)" using n' by (metis image_eqI set_map)
      then show "lower_char c \<noteq> CHR ''(''" using nn by auto
    qed
    have p1: "\<forall>c\<in>set (sp # oq @ n @ cq @ [sp2]). lower_char c \<noteq> CHR ''(''"
      using m1 m3 nn by auto
    have p2: "\<forall>c\<in>set (ws @ a @ n' @ b @ ws'). lower_char c \<noteq> CHR ''(''"
      using m2 m4 nn' by auto
    have "(sp # oq @ n @ cq @ [sp2]) @ CHR ''('' # B = (ws @ a @ n' @ b @ ws') @ CHR ''('' # R"
      using eq by simp
    then show ?thesis
      by (rule first_occurrence [OF np [OF p1] np [OF p2], symmetric])
  qed
qed

lemma after_table_Some:
  assumes "after_table n s = Some g"
  shows "\<exists>ws a n' b ws' R. s = ws @ a @ n' @ b @ ws' @ CHR ''('' # R \<and>
           (\<forall>c\<in>set ws. is_space c) \<and> set a \<subseteq> set open_quotes \<and>
           map lower_char n' = map lower_char n \<and> set b \<subseteq> set close_quotes \<and>
           (\<forall>c\<in>set ws'. is_space c) \<and> body_close R = Some g"
proof -
  obtain s1 where s1: "s1 \<in> set (spaces_plus s)" "name_part n s1 = Some g"
    using assms first_match_Some unfolding after_table_def by fast
  obtain s2 where s2: "s2 \<in> set (opt_char open_quotes s1)"
      "(case lit_ci n s2 of None \<Rightarrow> None | Some s3 \<Rightarrow> after_name s3) = Some g"
    using s1(2) first_match_Some unfolding name_part_def by fast
  obtain s3 where s3: "lit_ci n s2 = Some s3" "after_name s3 = Some g"
    using s2(2) by (auto split: option.splits)
  obtain s4 where s4: "s4 \<in> set (opt_char close_quotes s3)"
      "first_match paren_body (spaces_star s4) = Some g"
    using s3(2) first_match_Some unfolding after_name_def by fast
  obtain s5 where s5: "s5 \<in> set (spaces_star s4)" "paren_body s5 = Some g"
    using s4(2) first_match_Some by fast
  obtain R where R: "s5 = CHR ''('' # R" "body_close R = Some g"
    using s5(2) paren_body_Some by blast
  obtain ws where ws: "s = ws @ s1" "\<forall>c\<in>set ws. is_space c"
    using s1(1) spaces_plus_set by blast
  obtain a where a: "s1 = a @ s2" "set a \<subseteq> set open_quotes"
    using s2(1) opt_char_set by blast
  obtain n' where n': "s2 = n' @ s3" "map lower_char n' = map lower_char n"
    using s3(1) lit_ci_Some by blast
  obtain b where b: "s3 = b @ s4" "set b \<subseteq> set close_quotes"
    using s4(1) opt_char_set by blast
  obtain ws' where ws': "s4 = ws' @ s5" "\<forall>c\<in>set ws'. is_space c"
    using s5(1) spaces_star_set by blast
  have "s = ws @ a @ n' @ b @ ws' @ CHR ''('' # R"
    using ws(1) a(1) n'(1) b(1) ws'(1) R(1) by simp
  then have h: "s = ws @ a @ n' @ b @ ws' @ CHR ''('' # R \<and>
           (\<forall>c\<in>set ws. is_space c) \<and> set a \<subseteq> set open_quotes \<and>
           map lower_char n' = map lower_char n \<and> set b \<subseteq> set close_quotes \<and>
           (\<forall>c\<in>set ws'. is_space c) \<and> body_close R = Some g"
    using ws(2) a(2) n'(2) b(2) ws'(2) R(2) by simp
  show ?thesis by (intro exI) (rule h)
qed

lemma opt_char_option:
  "q \<in> set (quote_options qs) \<Longrightarrow> r \<in> set (opt_char qs (q @ r))"
  by (auto simp: quote_options_def opt_char_self)

lemma quote_options_subset: "q \<in> set (quote_options qs) \<Longrightarrow> set q \<subseteq> set qs"
  by (auto simp: quote_options_def)

lemma after_table_found:
  assumes oq: "oq \<in> set (quote_options open_quotes)"
    and cq: "cq \<in> set (quote_options close_quotes)"
    and B: "body_close B \<noteq> None"
  shows "after_table n (CHR '' '' # oq @ n @ cq @ CHR '' '' # CHR ''('' # B) \<noteq> None"
proof -
  have sp: "is_space (CHR '' '')" by (simp add: is_space_def)
  have "paren_body (CHR ''('' # B) \<noteq> None" using B by (simp add: paren_body_def)
  moreover have "CHR ''('' # B \<in> set (spaces_star (CHR '' '' # CHR ''('' # B))"
    using sp spaces_star_self [of "CHR ''('' # B"] by simp
  ultimately have "first_match paren_body (spaces_star (CHR '' '' # CHR ''('' # B)) \<noteq> None"
    by (rule first_match_found [rotated])
  moreover have "CHR '' '' # CHR ''('' # B \<in> set (opt_char close_quotes (cq @ CHR '' '' # CHR ''('' # B))"
    using cq by (rule opt_char_option)
  ultimately have "after_name (cq @ CHR '' '' # CHR ''('' # B) \<noteq> None"
    unfolding after_name_def by (rule first_match_found [rotated])
  then have "(case lit_ci n (n @ cq @ CHR '' '' # CHR ''('' # B) of None \<Rightarrow> None
              | Some s2 \<Rightarrow> after_name s2) \<noteq> None"
    by (simp add: lit_ci_self)
  moreover have "n @ cq @ CHR '' '' # CHR ''('' # B
                   \<in> set (opt_char open_quotes (oq @ n @ cq @ CHR '' '' # CHR ''('' # B))"
    using oq by (rule opt_char_option)
  ultimately have "name_part n (oq @ n @ cq @ CHR '' '' # CHR ''('' # B) \<noteq> None"
    unfolding name_part_def by (rule first_match_found [rotated])
  moreover have "oq @ n @ cq @ CHR '' '' # CHR ''('' # B
                   \<in> set (spaces_plus (CHR '' '' # oq @ n @ cq @ CHR '' '' # CHR ''('' # B))"
    using sp spaces_star_self [of "oq @ n @ cq @ CHR '' '' # CHR ''('' # B"] by simp
  ultimately show ?thesis
    unfolding after_table_def by (rule first_match_found [rotated])
qed

lemma after_table_quoted:
  assumes oq: "oq \<in> set (quote_options open_quotes)"
    and cq: "cq \<in> set (quote_options close_quotes)"
    and B: "body_close B \<noteq> None"
  shows "after_table n (CHR '' '' # oq @ n @ cq @ CHR '' '' # CHR ''('' # B) = body_close B"
proof -
  have sp: "is_space (CHR '' '')" by (simp add: is_space_def)
  obtain g where g: "after_table n (CHR '' '' # oq @ n @ cq @ CHR '' '' # CHR ''('' # B) = Some g"
    using after_table_found [OF oq cq B] by blast
  obtain ws a n' b ws' R where
    eq: "CHR '' '' # oq @ n @ cq @ CHR '' '' # CHR ''('' # B = ws @ a @ n' @ b @ ws' @ CHR ''('' # R"
    and c: "\<forall>c\<in>set ws. is_space c" "set a \<subseteq> set open_quotes"
      "map lower_char n' = map lower_char n" "set b \<subseteq> set close_quotes"
      "\<forall>c\<in>set ws'. is_space c"
    and R: "body_close R = Some g"
    using after_table_Some [OF g] by blast
  have "R = B"
    using eq sp sp quote_options_subset [OF oq] quote_options_subset [OF cq] c
    by (rule paren_unique)
  then show ?thesis using g R by simp
qed

lemma table_pattern_head:
  "table_pattern n (''CREATE TABLE '' @ r) = after_table n (CHR '' '' # r)"
  by (simp add: table_pattern_def is_space_def split: option.splits)

text \<open>
  Claim C9. In the fallback pattern the quote before the table name and the quote after
  it are optional and independent of each other. For every table name and every body, a
  statement with any opening quote character or none, and any closing quote character or
  none, is matched, and the group is the same as for the statement without quotes: the
  body up to the first \<^verbatim>\<open>);\<close>.
\<close>

theorem mismatched_quotes_accepted:
  assumes "oq \<in> set (quote_options open_quotes)"
    and "cq \<in> set (quote_options close_quotes)"
  shows "re_search (table_pattern table_name)
           (''CREATE TABLE '' @ oq @ table_name @ cq @ '' ('' @ body @ '');'')
         = body_close (body @ '');'') \<and>
         re_search (table_pattern table_name)
           (''CREATE TABLE '' @ oq @ table_name @ cq @ '' ('' @ body @ '');'')
         = re_search (table_pattern table_name)
             (''CREATE TABLE '' @ table_name @ '' ('' @ body @ '');'') \<and>
         body_close (body @ '');'') \<noteq> None"
proof -
  have B: "body_close (body @ '');'') \<noteq> None" by (rule body_close_total)
  have q: "\<And>x y. x \<in> set (quote_options open_quotes) \<Longrightarrow> y \<in> set (quote_options close_quotes) \<Longrightarrow>
     re_search (table_pattern table_name)
       (''CREATE TABLE '' @ x @ table_name @ y @ '' ('' @ body @ '');'')
     = body_close (body @ '');'')"
  proof -
    fix x y
    assume x: "x \<in> set (quote_options open_quotes)" and y: "y \<in> set (quote_options close_quotes)"
    have "table_pattern table_name (''CREATE TABLE '' @ (x @ table_name @ y @ '' ('' @ body @ '');''))
          = after_table table_name (CHR '' '' # x @ table_name @ y @ CHR '' '' # CHR ''('' # (body @ '');''))"
      by (simp only: table_pattern_head) simp
    also have "\<dots> = body_close (body @ '');'')"
      using x y B by (rule after_table_quoted)
    finally have "table_pattern table_name (''CREATE TABLE '' @ x @ table_name @ y @ '' ('' @ body @ '');'')
          = body_close (body @ '');'')" by simp
    then show "re_search (table_pattern table_name)
       (''CREATE TABLE '' @ x @ table_name @ y @ '' ('' @ body @ '');'')
     = body_close (body @ '');'')"
      using B by (auto split: option.splits)
  qed
  have e: "[] \<in> set (quote_options open_quotes)" "[] \<in> set (quote_options close_quotes)"
    by (simp_all add: quote_options_def)
  show ?thesis
    using q [OF assms] q [OF e] B by simp
qed

theorem mismatched_quotes_accepted_witness:
  "re_search (table_pattern ''users'')
     (''CREATE TABLE '' @ ''['' @ ''users'' @ [CHR 0x22] @ '' ('' @ ''id INT'' @ '');'')
     = Some ''id INT'' \<and>
   re_search (table_pattern ''users'')
     (''CREATE TABLE '' @ [] @ ''users'' @ '']'' @ '' ('' @ ''id INT'' @ '');'')
     = Some ''id INT'' \<and>
   re_search (table_pattern ''users'') (''CREATE TABLE '' @ ''users'' @ '' ('' @ ''id INT'' @ '');'')
     = Some ''id INT''"
proof -
  have o: "''['' \<in> set (quote_options open_quotes)" "[] \<in> set (quote_options open_quotes)"
    by (simp_all add: quote_options_def open_quotes_def)
  have c: "[CHR 0x22] \<in> set (quote_options close_quotes)"
    "'']'' \<in> set (quote_options close_quotes)"
    by (simp_all add: quote_options_def close_quotes_def)
  have b: "body_close (''id INT'' @ '');'') = Some ''id INT''" by code_simp
  note t1 = mismatched_quotes_accepted [OF o(1) c(1), of "''users''" "''id INT''"]
  note t2 = mismatched_quotes_accepted [OF o(2) c(2), of "''users''" "''id INT''"]
  have r1: "re_search (table_pattern ''users'')
     (''CREATE TABLE '' @ ''['' @ ''users'' @ [CHR 0x22] @ '' ('' @ ''id INT'' @ '');'')
     = Some ''id INT''"
    using t1 [THEN conjunct1] by (simp only: b)
  have r2: "re_search (table_pattern ''users'')
     (''CREATE TABLE '' @ [] @ ''users'' @ '']'' @ '' ('' @ ''id INT'' @ '');'')
     = Some ''id INT''"
    using t2 [THEN conjunct1] by (simp only: b)
  have r3: "re_search (table_pattern ''users'')
     (''CREATE TABLE '' @ ''users'' @ '' ('' @ ''id INT'' @ '');'') = Some ''id INT''"
    by (rule trans [OF t1 [THEN conjunct2, THEN conjunct1, symmetric] r1])
  show ?thesis
    by (intro conjI) (rule r1, rule r2, rule r3)
qed

end
